theory Spec2Isabelle
  imports Main
begin

section \<open>Shielder: the admission-control pipeline\<close>

text \<open>
  The limiter (package \<open>limiter\<close>: \<open>IsAllowed\<close>, \<open>BlockIP\<close>, \<open>IsBlocked\<close>) and the
  gateway handler (package \<open>proxy\<close>: \<open>Server.handler\<close>) are embedded as functions on
  an explicit world: the contents of the shared store and the ordered trace of every
  effect the code performs (submissions to the store, the response written to the
  client, forwarding, metrics). Whatever the environment decides is an argument: the
  instant at which the store serves a call, whether that call fails, the status the
  origin answers with, whether relaying the origin's answer is cut short, the elapsed
  time the deferred timer observes. Logging changes
  nothing the properties below are about and is left out. Requests are served one after
  the other; interleavings of concurrent requests are outside this development.
\<close>

subsection \<open>Time, configuration, errors\<close>

text \<open>\<open>time.Duration\<close> is a signed count of nanoseconds; instants are on the same scale.\<close>

type_synonym duration = int
type_synonym instant = int

text \<open>\<open>time.Minute\<close>.\<close>

definition Minute :: duration where
  "Minute = 60000000000"

text \<open>\<open>limiter.Config\<close>.\<close>

record Config =
  RequestsPerMinute :: int
  BurstSize :: int
  BlockDuration :: duration

text \<open>
  \<open>config.validate\<close>, on the fields it reads: the server's listen address, the
  proxy's target URL and the rate-limit section, whose three fields \<open>main\<close> copies
  one by one into \<open>limiter.Config\<close>. The result is the error message, or \<open>None\<close>
  for a configuration the process starts with.
\<close>

definition validate :: "string \<Rightarrow> string \<Rightarrow> Config \<Rightarrow> string option" where
  "validate listenAddr targetURL c =
     (if listenAddr = [] then Some ''server listen address is required''
      else if targetURL = [] then Some ''proxy target URL is required''
      else if RequestsPerMinute c \<le> 0 then
        Some ''rate limit requests per minute must be positive''
      else if BlockDuration c \<le> 0 then
        Some ''rate limit block duration must be positive''
      else None)"

text \<open>The error value a failed store call returns (the client library's \<open>error\<close>).\<close>

datatype error = StoreError string

subsection \<open>The shared counter store\<close>

text \<open>
  A stored value with the instant at which the store drops it (\<open>None\<close>: it has no
  time-to-live). A key whose expiry has been reached counts as absent.
\<close>

record entry =
  val :: int
  expiry :: "instant option"

type_synonym kv = "string \<rightharpoonup> entry"

definition live :: "instant \<Rightarrow> kv \<Rightarrow> string \<Rightarrow> entry option" where
  "live now s k =
     (case s k of
        None \<Rightarrow> None
      | Some e \<Rightarrow>
          (case expiry e of
             None \<Rightarrow> Some e
           | Some t \<Rightarrow> if now < t then Some e else None))"

text \<open>The commands the code sends; \<open>SET\<close> carries the boolean the code passes.\<close>

datatype cmd =
    INCR string
  | EXPIRE string duration
  | SET string bool duration
  | EXISTS string

text \<open>
  Modelled from the spec: the store itself (a Redis server behind the go-redis client)
  is not part of the repository; section 6 gives its contract
  \<open>INCR(key) -> int\<close>, \<open>EXPIRE(key, ttl)\<close>, \<open>SET(key, value, ttl)\<close>,
  \<open>EXISTS(key) -> bool\<close>. \<open>INCR\<close> creates an absent key at 1 (section 4.1) and keeps
  the time-to-live of a present one; \<open>EXPIRE\<close> arms the time-to-live of a present key
  and answers 0 for an absent one; \<open>SET\<close> overwrites value and time-to-live (a
  non-positive duration stores the key without one); \<open>EXISTS\<close> answers 1 or 0. The
  boolean \<open>true\<close> is stored as 1. Each command returns its integer reply and the new
  contents.
\<close>

fun exec_cmd :: "instant \<Rightarrow> kv \<Rightarrow> cmd \<Rightarrow> int \<times> kv" where
  "exec_cmd now s (INCR k) =
     (case live now s k of
        None \<Rightarrow> (1, s(k \<mapsto> \<lparr>val = 1, expiry = None\<rparr>))
      | Some e \<Rightarrow> (val e + 1, s(k \<mapsto> e\<lparr>val := val e + 1\<rparr>)))"
| "exec_cmd now s (EXPIRE k ttl) =
     (case live now s k of
        None \<Rightarrow> (0, s)
      | Some e \<Rightarrow> (1, s(k \<mapsto> e\<lparr>expiry := Some (now + ttl)\<rparr>)))"
| "exec_cmd now s (SET k v ttl) =
     (1, s(k \<mapsto> \<lparr>val = (if v then 1 else 0),
                  expiry = (if 0 < ttl then Some (now + ttl) else None)\<rparr>))"
| "exec_cmd now s (EXISTS k) =
     (case live now s k of None \<Rightarrow> (0, s) | Some e \<Rightarrow> (1, s))"

text \<open>
  Modelled from the spec: the pipelined submission of section 6. The commands of one
  submission are served in order, at one instant, and their replies come back together.
\<close>

fun exec_batch :: "instant \<Rightarrow> kv \<Rightarrow> cmd list \<Rightarrow> int list \<times> kv" where
  "exec_batch now s [] = ([], s)"
| "exec_batch now s (c # cs) =
     (let (r, s1) = exec_cmd now s c;
          (rs, s2) = exec_batch now s1 cs
      in (r # rs, s2))"

subsection \<open>Effects and the world\<close>

text \<open>
  Everything observable the code does, in the order it does it: a submission to the
  store (a pipeline is one submission of several commands), \<open>http.Error(w, msg, code)\<close>,
  \<open>proxy.ServeHTTP\<close> relaying the origin's answer with its status, the panic
  with \<open>http.ErrAbortHandler\<close> by which \<open>proxy.ServeHTTP\<close> gives up a relay it cannot
  finish, and the three calls on the metrics collector.
\<close>

datatype effect =
    Submit "cmd list"
  | HttpError nat string
  | ServeHTTP nat
  | AbortHandler
  | IncBlockedRequests string
  | IncSuccessfulRequests string
  | ObserveRequestDuration string duration

record world =
  store :: kv
  trace :: "effect list"

text \<open>What the environment decides for one call on the store: when it is served, and
  whether it fails (then with which error).\<close>

record call =
  call_time :: instant
  call_err :: "error option"

text \<open>
  Modelled from the spec: one round trip of the store client (\<open>Exec\<close> of a pipeline,
  or a single command). The submission is recorded; a failed call returns the error
  and leaves the contents as they were (\<open>StoreUnavailable\<close>, section 7); a served one
  returns the replies.
\<close>

definition submit :: "call \<Rightarrow> cmd list \<Rightarrow> world \<Rightarrow> (error + int list) \<times> world" where
  "submit cl cmds w =
     (let w' = w\<lparr>trace := trace w @ [Submit cmds]\<rparr>
      in case call_err cl of
           Some e \<Rightarrow> (Inl e, w')
         | None \<Rightarrow>
             (let (rs, s') = exec_batch (call_time cl) (store w) cmds
              in (Inr rs, w'\<lparr>store := s'\<rparr>)))"

text \<open>\<open>Val()\<close> of the first command of a submission (the zero value when it has no reply).\<close>

definition Val :: "int list \<Rightarrow> int" where
  "Val rs = (case rs of [] \<Rightarrow> 0 | n # _ \<Rightarrow> n)"

subsection \<open>The limiter\<close>

text \<open>\<open>RateLimiter.BlockIP\<close>: \<open>SET blocked:<ip> true\<close> with the configured duration.\<close>

definition BlockIP :: "Config \<Rightarrow> call \<Rightarrow> string \<Rightarrow> world \<Rightarrow> error option \<times> world" where
  "BlockIP c cl ip w =
     (let key = ''blocked:'' @ ip;
          (res, w1) = submit cl [SET key True (BlockDuration c)] w
      in case res of
           Inl err \<Rightarrow> (Some err, w1)
         | Inr _ \<Rightarrow> (None, w1))"

text \<open>
  \<open>RateLimiter.IsAllowed\<close>. The first call is the \<open>Exec\<close> of the pipeline, the
  second the \<open>SET\<close> of \<open>BlockIP\<close> (made only over the limit).
\<close>

definition IsAllowed ::
  "Config \<Rightarrow> call \<Rightarrow> call \<Rightarrow> string \<Rightarrow> world \<Rightarrow> (bool \<times> error option) \<times> world" where
  "IsAllowed c exec_call set_call ip w =
     (let key = ''rate:'' @ ip;
          (res, w1) = submit exec_call [INCR key, EXPIRE key Minute] w
      in case res of
           Inl err \<Rightarrow> ((False, Some err), w1)
         | Inr replies \<Rightarrow>
             (let count = Val replies
              in if count > RequestsPerMinute c then
                   (let (err, w2) = BlockIP c set_call ip w1
                    in ((False, err), w2))
                 else ((True, None), w1)))"

text \<open>\<open>RateLimiter.IsBlocked\<close>; it reads nothing of the receiver's configuration.\<close>

definition IsBlocked ::
  "Config \<Rightarrow> call \<Rightarrow> string \<Rightarrow> world \<Rightarrow> (bool \<times> error option) \<times> world" where
  "IsBlocked c cl ip w =
     (let key = ''blocked:'' @ ip;
          (res, w1) = submit cl [EXISTS key] w
      in case res of
           Inl err \<Rightarrow> ((False, Some err), w1)
         | Inr replies \<Rightarrow> ((Val replies = 1, None), w1))"

subsection \<open>The gateway handler\<close>

text \<open>The fields of \<open>http.Request\<close> the handler reads.\<close>

record request =
  RemoteAddr :: string
  Path :: string

text \<open>
  What the environment decides for one request. \<open>forward_aborts\<close>: the status line
  of the origin's answer has been relayed and copying its body fails (the origin cuts
  the body short, the client goes away, the write times out); under \<open>http.Server\<close>
  the reverse proxy then does not return: it panics with \<open>http.ErrAbortHandler\<close>.
  An origin that cannot be reached is no abort: the proxy answers 502 and returns.
\<close>

record env =
  blocked_call :: call
  exec_call :: call
  set_call :: call
  origin_status :: nat
  forward_aborts :: bool
  elapsed :: duration

definition http_error :: "nat \<Rightarrow> string \<Rightarrow> world \<Rightarrow> world" where
  "http_error code msg w = w\<lparr>trace := trace w @ [HttpError code msg]\<rparr>"

definition emit :: "effect \<Rightarrow> world \<Rightarrow> world" where
  "emit x w = w\<lparr>trace := trace w @ [x]\<rparr>"

text \<open>
  \<open>Server.handler\<close>: the status of the response the client gets, and the world after
  the request. The deferred \<open>ObserveRequestDuration\<close> runs last on every path, also
  when \<open>proxy.ServeHTTP\<close> panics: the panic unwinds through the handler, so the
  statements after the call (the success metric among them) do not run, the deferred
  function does, and the server drops the connection and goes on serving.
\<close>

definition handler :: "Config \<Rightarrow> env \<Rightarrow> request \<Rightarrow> world \<Rightarrow> nat \<times> world" where
  "handler c ev r w =
     (let clientIP = RemoteAddr r;
          deferred = emit (ObserveRequestDuration (Path r) (elapsed ev));
          ((blocked, err), w1) = IsBlocked c (blocked_call ev) clientIP w
      in case err of
           Some e \<Rightarrow> (500, deferred (http_error 500 ''Internal Server Error'' w1))
         | None \<Rightarrow>
             if blocked then
               (429, deferred (emit (IncBlockedRequests clientIP)
                                 (http_error 429 ''Too Many Requests'' w1)))
             else
               (let ((allowed, err), w2) =
                      IsAllowed c (exec_call ev) (set_call ev) clientIP w1
                in case err of
                     Some e \<Rightarrow> (500, deferred (http_error 500 ''Internal Server Error'' w2))
                   | None \<Rightarrow>
                       if \<not> allowed then
                         (429, deferred (emit (IncBlockedRequests clientIP)
                                           (http_error 429 ''Too Many Requests'' w2)))
                       else if forward_aborts ev then
                         (origin_status ev,
                          deferred (emit AbortHandler
                                      (emit (ServeHTTP (origin_status ev)) w2)))
                       else
                         (origin_status ev,
                          deferred (emit (IncSuccessfulRequests clientIP)
                                      (emit (ServeHTTP (origin_status ev)) w2)))))"

text \<open>The server dispatching a run of requests to the handler, one after the other.\<close>

fun serve :: "Config \<Rightarrow> (env \<times> request) list \<Rightarrow> world \<Rightarrow> nat list \<times> world" where
  "serve c [] w = ([], w)"
| "serve c ((ev, r) # rest) w =
     (let (st, w1) = handler c ev r w;
          (sts, w2) = serve c rest w1
      in (st # sts, w2))"


text \<open>\<open>IsAllowed\<close> called again and again for one identity.\<close>

fun IsAllowed_repeat ::
  "Config \<Rightarrow> string \<Rightarrow> (call \<times> call) list \<Rightarrow> world \<Rightarrow> (bool \<times> error option) list \<times> world" where
  "IsAllowed_repeat c ip [] w = ([], w)"
| "IsAllowed_repeat c ip ((ec, sc) # cs) w =
     (let (res, w1) = IsAllowed c ec sc ip w;
          (ress, w2) = IsAllowed_repeat c ip cs w1
      in (res # ress, w2))"

subsection \<open>Notions the properties are stated with\<close>

text \<open>
  The value \<open>INCR\<close> answers with when served at \<open>now\<close>: 1 for a key that is absent
  or expired, one more than the stored value otherwise.
\<close>

definition next_count :: "instant \<Rightarrow> kv \<Rightarrow> string \<Rightarrow> int" where
  "next_count now s k = (case live now s k of None \<Rightarrow> 1 | Some e \<Rightarrow> val e + 1)"

text \<open>The effects added to the trace between two worlds.\<close>

definition new_events :: "world \<Rightarrow> world \<Rightarrow> effect list" where
  "new_events w w' = drop (length (trace w)) (trace w')"

subsection \<open>A concrete scenario\<close>

text \<open>
  Threshold 3 per minute, block duration ten minutes, identity \<open>A\<close>; \<open>time.Second\<close>.
\<close>

definition Second :: duration where
  "Second = 1000000000"

definition scenario_config :: Config where
  "scenario_config = \<lparr>RequestsPerMinute = 3, BurstSize = 10, BlockDuration = 600 * Second\<rparr>"

definition served :: "instant \<Rightarrow> call" where
  "served t = \<lparr>call_time = t, call_err = None\<rparr>"

definition failed :: "instant \<Rightarrow> call" where
  "failed t = \<lparr>call_time = t, call_err = Some (StoreError ''connection refused'')\<rparr>"

definition request_A :: request where
  "request_A = \<lparr>RemoteAddr = ''A'', Path = ''/index''\<rparr>"

text \<open>
  A request whose store calls are all served at \<open>t\<close> and whose forwarding returns,
  one where chosen store calls fail, and one whose forwarding aborts.
\<close>

definition env_at :: "instant \<Rightarrow> env" where
  "env_at t = \<lparr>blocked_call = served t, exec_call = served t, set_call = served t,
              origin_status = 200, forward_aborts = False, elapsed = 1000\<rparr>"


definition env_aborting :: "instant \<Rightarrow> env" where
  "env_aborting t = \<lparr>blocked_call = served t, exec_call = served t, set_call = served t,
                    origin_status = 200, forward_aborts = True, elapsed = 1000\<rparr>"

text \<open>A store holding only the counter of \<open>A\<close>, at \<open>n\<close>, expiring at \<open>t\<close>.\<close>

definition counting :: "int \<Rightarrow> instant \<Rightarrow> world" where
  "counting n t = \<lparr>store = [''rate:A'' \<mapsto> \<lparr>val = n, expiry = Some t\<rparr>], trace = []\<rparr>"

text \<open>
  The store after four requests of \<open>A\<close> at instant 0: the counter at 4 with a minute
  to live, the Block Record with ten.
\<close>

definition blocked_world :: world where
  "blocked_world =
     \<lparr>store = [''rate:A'' \<mapsto> \<lparr>val = 4, expiry = Some (60 * Second)\<rparr>,
               ''blocked:A'' \<mapsto> \<lparr>val = 1, expiry = Some (600 * Second)\<rparr>],
      trace = []\<rparr>"


section \<open>Basic facts\<close>

subsection \<open>The store and a round trip\<close>

lemma exec_incr_expire:
  "exec_batch now s [INCR k, EXPIRE k ttl] =
     ([next_count now s k, 1],
      s(k \<mapsto> \<lparr>val = next_count now s k, expiry = Some (now + ttl)\<rparr>))"
  by (auto simp: next_count_def live_def Let_def split: option.splits)

lemma submit_fail:
  "call_err cl = Some e \<Longrightarrow> submit cl cmds w = (Inl e, w\<lparr>trace := trace w @ [Submit cmds]\<rparr>)"
  by (simp add: submit_def)

lemma submit_ok:
  "call_err cl = None \<Longrightarrow>
   submit cl cmds w =
     (Inr (fst (exec_batch (call_time cl) (store w) cmds)),
      \<lparr>store = snd (exec_batch (call_time cl) (store w) cmds), trace = trace w @ [Submit cmds]\<rparr>)"
  by (simp add: submit_def Let_def split: prod.splits)

lemma validate_None:
  "validate listenAddr targetURL c = None \<Longrightarrow> 0 < RequestsPerMinute c \<and> 0 < BlockDuration c"
  by (simp add: validate_def split: if_splits)

subsection \<open>The limiter, case by case\<close>

lemma IsBlocked_eq:
  "IsBlocked c cl ip w =
     ((case call_err cl of
         Some e \<Rightarrow> (False, Some e)
       | None \<Rightarrow> (live (call_time cl) (store w) (''blocked:'' @ ip) \<noteq> None, None)),
      w\<lparr>trace := trace w @ [Submit [EXISTS (''blocked:'' @ ip)]]\<rparr>)"
  by (simp add: IsBlocked_def submit_def Val_def Let_def split: option.splits prod.splits)

lemma BlockIP_eq:
  "BlockIP c sc ip w =
     (call_err sc,
      \<lparr>store = (if call_err sc = None
                then (store w)(''blocked:'' @ ip \<mapsto>
                       \<lparr>val = 1,
                        expiry = (if 0 < BlockDuration c then Some (call_time sc + BlockDuration c) else None)\<rparr>)
                else store w),
       trace = trace w @ [Submit [SET (''blocked:'' @ ip) True (BlockDuration c)]]\<rparr>)"
  by (cases "call_err sc") (simp_all add: BlockIP_def submit_def Let_def)

lemma IsAllowed_fail:
  "call_err ec = Some e \<Longrightarrow>
   IsAllowed c ec sc ip w =
     ((False, Some e), w\<lparr>trace := trace w @ [Submit [INCR (''rate:'' @ ip), EXPIRE (''rate:'' @ ip) Minute]]\<rparr>)"
  by (simp add: IsAllowed_def submit_fail Let_def)

lemma IsAllowed_under:
  "call_err ec = None \<Longrightarrow> next_count (call_time ec) (store w) (''rate:'' @ ip) \<le> RequestsPerMinute c \<Longrightarrow>
   IsAllowed c ec sc ip w =
     ((True, None),
      \<lparr>store = (store w)(''rate:'' @ ip \<mapsto>
                 \<lparr>val = next_count (call_time ec) (store w) (''rate:'' @ ip),
                  expiry = Some (call_time ec + Minute)\<rparr>),
       trace = trace w @ [Submit [INCR (''rate:'' @ ip), EXPIRE (''rate:'' @ ip) Minute]]\<rparr>)"
  by (simp add: IsAllowed_def submit_ok exec_incr_expire Val_def Let_def del: exec_batch.simps)

lemma IsAllowed_over:
  "call_err ec = None \<Longrightarrow> RequestsPerMinute c < next_count (call_time ec) (store w) (''rate:'' @ ip) \<Longrightarrow>
   IsAllowed c ec sc ip w =
     ((False, call_err sc),
      \<lparr>store =
         (let s1 = (store w)(''rate:'' @ ip \<mapsto>
                 \<lparr>val = next_count (call_time ec) (store w) (''rate:'' @ ip),
                  expiry = Some (call_time ec + Minute)\<rparr>)
          in if call_err sc = None
             then s1(''blocked:'' @ ip \<mapsto>
                       \<lparr>val = 1,
                        expiry = (if 0 < BlockDuration c then Some (call_time sc + BlockDuration c) else None)\<rparr>)
             else s1),
       trace = trace w @ [Submit [INCR (''rate:'' @ ip), EXPIRE (''rate:'' @ ip) Minute],
                          Submit [SET (''blocked:'' @ ip) True (BlockDuration c)]]\<rparr>)"
  by (simp add: IsAllowed_def submit_ok exec_incr_expire Val_def Let_def BlockIP_eq del: exec_batch.simps)

lemma IsAllowed_trace:
  "trace (snd (IsAllowed c ec sc ip w)) =
     trace w @
     Submit [INCR (''rate:'' @ ip), EXPIRE (''rate:'' @ ip) Minute] #
     (if call_err ec = None \<and>
         RequestsPerMinute c < next_count (call_time ec) (store w) (''rate:'' @ ip)
      then [Submit [SET (''blocked:'' @ ip) True (BlockDuration c)]] else [])"
proof (cases "call_err ec")
  case None
  then show ?thesis
    by (cases "RequestsPerMinute c < next_count (call_time ec) (store w) (''rate:'' @ ip)")
       (simp_all add: IsAllowed_under IsAllowed_over)
next
  case (Some e)
  then show ?thesis by (simp add: IsAllowed_fail)
qed

lemma IsAllowed_counter:
  "call_err ec = None \<Longrightarrow>
   store (snd (IsAllowed c ec sc ip w)) (''rate:'' @ ip) =
     Some \<lparr>val = next_count (call_time ec) (store w) (''rate:'' @ ip),
           expiry = Some (call_time ec + Minute)\<rparr>"
  by (cases "RequestsPerMinute c < next_count (call_time ec) (store w) (''rate:'' @ ip)")
     (simp_all add: IsAllowed_under IsAllowed_over Let_def)

lemma IsAllowed_verdict:
  "call_err ec = None \<Longrightarrow>
   fst (fst (IsAllowed c ec sc ip w)) =
     (next_count (call_time ec) (store w) (''rate:'' @ ip) \<le> RequestsPerMinute c)"
  by (cases "RequestsPerMinute c < next_count (call_time ec) (store w) (''rate:'' @ ip)")
     (simp_all add: IsAllowed_under IsAllowed_over)

lemma next_count_after:
  assumes "call_err ec = None" and "t' < call_time ec + Minute"
  shows "next_count t' (store (snd (IsAllowed c ec sc ip w))) (''rate:'' @ ip) =
           next_count (call_time ec) (store w) (''rate:'' @ ip) + 1"
  using assms IsAllowed_counter [OF assms(1), of c sc ip w]
  by (simp add: next_count_def live_def)


subsection \<open>The handler, path by path\<close>



lemma handler_IsAllowed:
  "call_err (blocked_call ev) = None \<Longrightarrow>
   live (call_time (blocked_call ev)) (store w) (''blocked:'' @ RemoteAddr r) = None \<Longrightarrow>
   IsAllowed c (exec_call ev) (set_call ev) (RemoteAddr r)
     (w\<lparr>trace := trace w @ [Submit [EXISTS (''blocked:'' @ RemoteAddr r)]]\<rparr>) = ((allowed, err), w2) \<Longrightarrow>
   handler c ev r w =
     (case err of
        Some e \<Rightarrow>
          (500, w2\<lparr>trace := trace w2 @
                   [HttpError 500 ''Internal Server Error'',
                    ObserveRequestDuration (Path r) (elapsed ev)]\<rparr>)
      | None \<Rightarrow>
          if \<not> allowed then
            (429, w2\<lparr>trace := trace w2 @
                   [HttpError 429 ''Too Many Requests'',
                    IncBlockedRequests (RemoteAddr r),
                    ObserveRequestDuration (Path r) (elapsed ev)]\<rparr>)
          else if forward_aborts ev then
            (origin_status ev,
             w2\<lparr>trace := trace w2 @
                   [ServeHTTP (origin_status ev),
                    AbortHandler,
                    ObserveRequestDuration (Path r) (elapsed ev)]\<rparr>)
          else
            (origin_status ev,
             w2\<lparr>trace := trace w2 @
                   [ServeHTTP (origin_status ev),
                    IncSuccessfulRequests (RemoteAddr r),
                    ObserveRequestDuration (Path r) (elapsed ev)]\<rparr>))"
  by (simp add: handler_def IsBlocked_eq emit_def http_error_def Let_def split: option.splits)


subsection \<open>Runs of calls and of requests\<close>

lemma successively_take:
  "successively P xs \<Longrightarrow> successively P (take k xs)"
  using successively_append_iff [of P "take k xs" "drop k xs"] by simp

lemma last_take: "0 < k \<Longrightarrow> k \<le> length xs \<Longrightarrow> last (take k xs) = xs ! (k - 1)"
proof -
  assume k: "0 < k" "k \<le> length xs"
  then have "take k xs \<noteq> []" by auto
  then have "last (take k xs) = take k xs ! (length (take k xs) - 1)"
    by (rule last_conv_nth)
  also from k have "\<dots> = xs ! (k - 1)" by (simp add: min_def)
  finally show ?thesis .
qed

lemma concat_replicate_comm:
  "concat (replicate n ys) @ ys = ys @ concat (replicate n ys)"
  by (induction n) simp_all

lemma IsAllowed_repeat_snoc:
  "IsAllowed_repeat c ip (xs @ [(ec, sc)]) w =
     (fst (IsAllowed_repeat c ip xs w) @ [fst (IsAllowed c ec sc ip (snd (IsAllowed_repeat c ip xs w)))],
      snd (IsAllowed c ec sc ip (snd (IsAllowed_repeat c ip xs w))))"
  by (induction xs arbitrary: w) (auto simp: split_def Let_def)

lemma IsAllowed_over_parts:
  assumes "call_err ec = None"
      and "RequestsPerMinute c < next_count (call_time ec) (store w) (''rate:'' @ ip)"
  shows "fst (IsAllowed c ec sc ip w) = (False, call_err sc)"
    and "trace (snd (IsAllowed c ec sc ip w)) =
           trace w @ [Submit [INCR (''rate:'' @ ip), EXPIRE (''rate:'' @ ip) Minute],
                      Submit [SET (''blocked:'' @ ip) True (BlockDuration c)]]"
    and "store (snd (IsAllowed c ec sc ip w)) (''blocked:'' @ ip) =
           (if call_err sc = None
            then Some \<lparr>val = 1,
                       expiry = (if 0 < BlockDuration c
                                 then Some (call_time sc + BlockDuration c) else None)\<rparr>
            else store w (''blocked:'' @ ip))"
  using assms by (simp_all add: IsAllowed_over Let_def)

lemma IsAllowed_repeat_run:
  assumes pos: "0 < BlockDuration c"
  shows "cs \<noteq> [] \<Longrightarrow>
     \<forall>(ec, sc) \<in> set cs. call_err ec = None \<Longrightarrow>
     successively (\<lambda>a b. call_time (fst b) < call_time (fst a) + Minute) cs \<Longrightarrow>
     RequestsPerMinute c < next_count (call_time (fst (hd cs))) (store w) (''rate:'' @ ip) \<Longrightarrow>
     fst (IsAllowed_repeat c ip cs w) = map (\<lambda>(ec, sc). (False, call_err sc)) cs \<and>
     trace (snd (IsAllowed_repeat c ip cs w)) =
       trace w @ concat (replicate (length cs)
         [Submit [INCR (''rate:'' @ ip), EXPIRE (''rate:'' @ ip) Minute],
          Submit [SET (''blocked:'' @ ip) True (BlockDuration c)]]) \<and>
     store (snd (IsAllowed_repeat c ip cs w)) (''rate:'' @ ip) =
       Some \<lparr>val = next_count (call_time (fst (hd cs))) (store w) (''rate:'' @ ip)
                    + int (length cs) - 1,
             expiry = Some (call_time (fst (last cs)) + Minute)\<rparr> \<and>
     store (snd (IsAllowed_repeat c ip cs w)) (''blocked:'' @ ip) =
       (if call_err (snd (last cs)) = None
        then Some \<lparr>val = 1, expiry = Some (call_time (snd (last cs)) + BlockDuration c)\<rparr>
        else store (snd (IsAllowed_repeat c ip (butlast cs) w)) (''blocked:'' @ ip))"
proof (induction cs rule: rev_induct)
  case Nil
  then show ?case by simp
next
  case (snoc x xs)
  obtain ec sc where x: "x = (ec, sc)" by (cases x)
  let ?R = "''rate:'' @ ip"
  let ?B = "''blocked:'' @ ip"
  let ?Y = "[Submit [INCR ?R, EXPIRE ?R Minute], Submit [SET ?B True (BlockDuration c)]]"
  let ?w1 = "snd (IsAllowed_repeat c ip xs w)"
  from snoc.prems(2) x have ok: "call_err ec = None" by auto
  show ?case
  proof (cases "xs = []")
    case True
    with snoc.prems(4) x
    have over: "RequestsPerMinute c < next_count (call_time ec) (store w) ?R" by simp
    from True x show ?thesis
      using IsAllowed_over_parts [OF ok over, of sc] IsAllowed_counter [OF ok, of c sc ip w] pos
      by (simp add: split_def Let_def)
  next
    case False
    let ?n = "next_count (call_time (fst (hd xs))) (store w) ?R"
    from False have hd: "hd (xs @ [x]) = hd xs" by simp
    from snoc.prems(2) have all: "\<forall>(ec, sc) \<in> set xs. call_err ec = None" by simp
    from snoc.prems(3) False x
    have succ: "successively (\<lambda>a b. call_time (fst b) < call_time (fst a) + Minute) xs"
      and near: "call_time ec < call_time (fst (last xs)) + Minute"
      by (simp_all add: successively_append_iff)
    from snoc.prems(4) hd have over0: "RequestsPerMinute c < ?n" by simp
    note IH = snoc.IH [OF False all succ over0]
    from IH have cnt: "store ?w1 ?R =
        Some \<lparr>val = ?n + int (length xs) - 1,
              expiry = Some (call_time (fst (last xs)) + Minute)\<rparr>"
      by blast
    from IH have res0: "fst (IsAllowed_repeat c ip xs w) = map (\<lambda>(ec, sc). (False, call_err sc)) xs"
      by blast
    from IH have tr0: "trace ?w1 = trace w @ concat (replicate (length xs) ?Y)"
      by blast
    have nc: "next_count (call_time ec) (store ?w1) ?R = ?n + int (length xs)"
      using cnt near by (simp add: next_count_def live_def)
    with over0 have over: "RequestsPerMinute c < next_count (call_time ec) (store ?w1) ?R"
      by simp
    have res: "fst (IsAllowed_repeat c ip (xs @ [x]) w) =
        map (\<lambda>(ec, sc). (False, call_err sc)) (xs @ [x])"
      using res0 IsAllowed_over_parts(1) [OF ok over, of sc] x
      by (simp add: IsAllowed_repeat_snoc)
    have "trace (snd (IsAllowed_repeat c ip (xs @ [x]) w)) = trace ?w1 @ ?Y"
      using IsAllowed_over_parts(2) [OF ok over, of sc] x
      by (simp add: IsAllowed_repeat_snoc)
    also have "\<dots> = trace w @ (concat (replicate (length xs) ?Y) @ ?Y)"
      by (simp only: tr0 append_assoc)
    also have "concat (replicate (length xs) ?Y) @ ?Y = concat (replicate (length (xs @ [x])) ?Y)"
      by (simp only: concat_replicate_comm length_append list.size replicate_Suc concat.simps
            add_Suc_right add_0_right One_nat_def)
    finally have tr: "trace (snd (IsAllowed_repeat c ip (xs @ [x]) w)) =
       trace w @ concat (replicate (length (xs @ [x])) ?Y)" .
    have ctr: "store (snd (IsAllowed_repeat c ip (xs @ [x]) w)) ?R =
       Some \<lparr>val = next_count (call_time (fst (hd (xs @ [x])))) (store w) ?R
                    + int (length (xs @ [x])) - 1,
             expiry = Some (call_time (fst (last (xs @ [x]))) + Minute)\<rparr>"
      using IsAllowed_counter [OF ok, of c sc ip ?w1] nc x hd
      by (simp add: IsAllowed_repeat_snoc)
    have blk: "store (snd (IsAllowed_repeat c ip (xs @ [x]) w)) ?B =
       (if call_err (snd (last (xs @ [x]))) = None
        then Some \<lparr>val = 1, expiry = Some (call_time (snd (last (xs @ [x]))) + BlockDuration c)\<rparr>
        else store (snd (IsAllowed_repeat c ip (butlast (xs @ [x])) w)) ?B)"
      using IsAllowed_over_parts(3) [OF ok over, of sc] x pos
      by (simp add: IsAllowed_repeat_snoc)
    from res tr ctr blk show ?thesis by blast
  qed
qed

lemma IsAllowed_repeat_verdicts:
  "cs \<noteq> [] \<Longrightarrow>
   \<forall>(ec, sc) \<in> set cs. call_err ec = None \<Longrightarrow>
   successively (\<lambda>a b. call_time (fst b) < call_time (fst a) + Minute) cs \<Longrightarrow>
   map fst (fst (IsAllowed_repeat c ip cs w)) =
     map (\<lambda>i. next_count (call_time (fst (hd cs))) (store w) (''rate:'' @ ip) + int i
                 \<le> RequestsPerMinute c) [0..<length cs]"
proof (induction cs arbitrary: w)
  case Nil
  then show ?case by simp
next
  case (Cons x rest)
  obtain ec sc where x: "x = (ec, sc)" by (cases x)
  let ?w1 = "snd (IsAllowed c ec sc ip w)"
  let ?n = "next_count (call_time ec) (store w) (''rate:'' @ ip)"
  from Cons.prems(2) x have ok: "call_err ec = None"
    by auto
  have v: "fst (fst (IsAllowed c ec sc ip w)) = (?n \<le> RequestsPerMinute c)"
    using ok by (rule IsAllowed_verdict)
  show ?case
  proof (cases "rest = []")
    case True
    with x v show ?thesis
      by (simp add: split_def Let_def)
  next
    case False
    with Cons.prems(3) x have near: "call_time (fst (hd rest)) < call_time ec + Minute"
      and succ: "successively (\<lambda>a b. call_time (fst b) < call_time (fst a) + Minute) rest"
      by (simp_all add: successively_Cons)
    have n': "next_count (call_time (fst (hd rest))) (store ?w1) (''rate:'' @ ip) = ?n + 1"
      using ok near by (rule next_count_after)
    from Cons.prems(2) have all: "\<forall>(ec, sc) \<in> set rest. call_err ec = None"
      by simp
    have "map fst (fst (IsAllowed_repeat c ip rest ?w1)) =
            map (\<lambda>i. ?n + 1 + int i \<le> RequestsPerMinute c) [0..<length rest]"
      using Cons.IH [OF False all succ, of ?w1] by (simp only: n')
    also have "\<dots> = map (\<lambda>i. ?n + int (Suc i) \<le> RequestsPerMinute c) [0..<length rest]"
      by (simp add: algebra_simps)
    finally have tl: "map fst (fst (IsAllowed_repeat c ip rest ?w1)) =
            map (\<lambda>i. ?n + int (Suc i) \<le> RequestsPerMinute c) [0..<length rest]" .
    have hd: "map (\<lambda>i. ?n + int i \<le> RequestsPerMinute c) [0..<Suc (length rest)] =
            (?n + int 0 \<le> RequestsPerMinute c) #
            map (\<lambda>i. ?n + int (Suc i) \<le> RequestsPerMinute c) [0..<length rest]"
      by (rule map_upt_Suc)
    have "map fst (fst (IsAllowed_repeat c ip (x # rest) w)) =
            fst (fst (IsAllowed c ec sc ip w)) # map fst (fst (IsAllowed_repeat c ip rest ?w1))"
      using x by (simp add: split_def Let_def)
    also have "\<dots> = (?n + int 0 \<le> RequestsPerMinute c) #
            map (\<lambda>i. ?n + int (Suc i) \<le> RequestsPerMinute c) [0..<length rest]"
      using v tl by simp
    also have "\<dots> = map (\<lambda>i. ?n + int i \<le> RequestsPerMinute c) [0..<Suc (length rest)]"
      by (rule hd [symmetric])
    finally show ?thesis
      using x by (simp del: upt_Suc)
  qed
qed


section \<open>The rate check\<close>



text \<open>
  The same over a run of calls the store serves, each within a minute of the one
  before: counted from the value the first call reads, the call number \<open>i\<close> (from 0)
  is allowed exactly when that value plus \<open>i\<close> is within the threshold. Starting
  without a counter, the N-th call is allowed exactly when N is at most the threshold.
\<close>

lemma first_requests_allowed:
  assumes "cs \<noteq> []"
      and "\<forall>(ec, sc) \<in> set cs. call_err ec = None"
      and "successively (\<lambda>a b. call_time (fst b) < call_time (fst a) + Minute) cs"
      and "live (call_time (fst (hd cs))) (store w) (''rate:'' @ ip) = None"
      and "i < length cs"
  shows "fst (fst (IsAllowed_repeat c ip cs w) ! i) = (int (Suc i) \<le> RequestsPerMinute c)"
proof -
  have n: "next_count (call_time (fst (hd cs))) (store w) (''rate:'' @ ip) = 1"
    using assms(4) by (simp add: next_count_def)
  have len: "length (fst (IsAllowed_repeat c ip cs w)) = length cs"
    using IsAllowed_repeat_verdicts [OF assms(1) assms(2) assms(3), of c ip w]
    by (metis length_map length_upt minus_nat.diff_0)
  have "fst (fst (IsAllowed_repeat c ip cs w) ! i) = map fst (fst (IsAllowed_repeat c ip cs w)) ! i"
    using assms(5) len by simp
  also have "\<dots> = (1 + int i \<le> RequestsPerMinute c)"
    using IsAllowed_repeat_verdicts [OF assms(1) assms(2) assms(3), of c ip w] assms(5) n
    by simp
  finally show ?thesis by simp
qed

text \<open>
  C4. Every call of \<open>IsAllowed\<close> submits, first and in one pipelined submission,
  the increment of the identity's counter together with the setting of its
  time-to-live to one minute; nothing else it submits touches the counter (the only
  other submission is the \<open>SET\<close> of the Block Record, made over the limit). When the
  store serves the pipeline, an absent counter is created at 1 and a present one is
  incremented, and in both cases the counter then has one minute to live from the
  instant of the call.
\<close>

theorem IsAllowed_pipeline:
  "trace (snd (IsAllowed c ec sc ip w)) =
     trace w @
     Submit [INCR (''rate:'' @ ip), EXPIRE (''rate:'' @ ip) Minute] #
     (if call_err ec = None \<and>
         RequestsPerMinute c < next_count (call_time ec) (store w) (''rate:'' @ ip)
      then [Submit [SET (''blocked:'' @ ip) True (BlockDuration c)]] else []) \<and>
   (call_err ec = None \<longrightarrow>
      (live (call_time ec) (store w) (''rate:'' @ ip) = None \<longrightarrow>
         store (snd (IsAllowed c ec sc ip w)) (''rate:'' @ ip) =
           Some \<lparr>val = 1, expiry = Some (call_time ec + Minute)\<rparr>) \<and>
      (\<forall>e. live (call_time ec) (store w) (''rate:'' @ ip) = Some e \<longrightarrow>
         store (snd (IsAllowed c ec sc ip w)) (''rate:'' @ ip) =
           Some \<lparr>val = val e + 1, expiry = Some (call_time ec + Minute)\<rparr>))"
  using IsAllowed_trace [of c ec sc ip w] IsAllowed_counter [of ec c sc ip w]
  by (simp add: next_count_def)

theorem IsAllowed_pipeline_witness:
  "trace (snd (IsAllowed scenario_config (served (5 * Second)) (served (5 * Second)) ''A''
                 (counting 2 (30 * Second)))) =
     [Submit [INCR ''rate:A'', EXPIRE ''rate:A'' Minute]] \<and>
   store (snd (IsAllowed scenario_config (served (5 * Second)) (served (5 * Second)) ''A''
                 (counting 2 (30 * Second)))) ''rate:A'' =
     Some \<lparr>val = 3, expiry = Some (5 * Second + Minute)\<rparr> \<and>
   store (snd (IsAllowed scenario_config (served (40 * Second)) (served (40 * Second)) ''A''
                 (counting 2 (30 * Second)))) ''rate:A'' =
     Some \<lparr>val = 1, expiry = Some (40 * Second + Minute)\<rparr>"
  using IsAllowed_pipeline [of scenario_config "served (5 * Second)" "served (5 * Second)" "''A''" "counting 2 (30 * Second)"]
        IsAllowed_pipeline [of scenario_config "served (40 * Second)" "served (40 * Second)" "''A''" "counting 2 (30 * Second)"]
  by (simp add: served_def counting_def scenario_config_def next_count_def live_def Second_def)

text \<open>
  C7. \<open>IsAllowed\<close> called again and again for an identity that is over the
  threshold, under a validated configuration, the store serving every pipeline and
  each call made within a minute of the one before: every call returns \<open>false\<close>,
  with the error of its Block Record write if that write failed, and submits the
  \<open>SET\<close> of the Block Record with the configured block duration. After each
  call whose write the store served, the Block Record holds the same value, \<open>true\<close>,
  and expires exactly one block duration after that write, whatever it held before; a
  failed write leaves the record as the call found it.
\<close>

theorem block_rewrite_idempotent:
  assumes "validate listenAddr targetURL c = None"
      and "cs \<noteq> []"
      and "\<forall>(ec, sc) \<in> set cs. call_err ec = None"
      and "successively (\<lambda>a b. call_time (fst b) < call_time (fst a) + Minute) cs"
      and "RequestsPerMinute c < next_count (call_time (fst (hd cs))) (store w) (''rate:'' @ ip)"
  shows "fst (IsAllowed_repeat c ip cs w) = map (\<lambda>(ec, sc). (False, call_err sc)) cs \<and>
         new_events w (snd (IsAllowed_repeat c ip cs w)) =
           concat (replicate (length cs)
             [Submit [INCR (''rate:'' @ ip), EXPIRE (''rate:'' @ ip) Minute],
              Submit [SET (''blocked:'' @ ip) True (BlockDuration c)]]) \<and>
         (\<forall>k. 0 < k \<and> k \<le> length cs \<longrightarrow>
            store (snd (IsAllowed_repeat c ip (take k cs) w)) (''blocked:'' @ ip) =
              (if call_err (snd (cs ! (k - 1))) = None
               then Some \<lparr>val = 1,
                          expiry = Some (call_time (snd (cs ! (k - 1))) + BlockDuration c)\<rparr>
               else store (snd (IsAllowed_repeat c ip (take (k - 1) cs) w)) (''blocked:'' @ ip)))"
proof -
  from validate_None [OF assms(1)] have pos: "0 < BlockDuration c"
    by simp
  have each: "store (snd (IsAllowed_repeat c ip (take k cs) w)) (''blocked:'' @ ip) =
              (if call_err (snd (cs ! (k - 1))) = None
               then Some \<lparr>val = 1,
                          expiry = Some (call_time (snd (cs ! (k - 1))) + BlockDuration c)\<rparr>
               else store (snd (IsAllowed_repeat c ip (take (k - 1) cs) w)) (''blocked:'' @ ip))"
    if k: "0 < k" "k \<le> length cs" for k
  proof -
    from k have ne: "take k cs \<noteq> []" by auto
    from assms(3) have all: "\<forall>(ec, sc) \<in> set (take k cs). call_err ec = None"
      using set_take_subset [of k cs] by blast
    from assms(4) have succ:
      "successively (\<lambda>a b. call_time (fst b) < call_time (fst a) + Minute) (take k cs)"
      by (rule successively_take)
    from assms(5) k(1) have over:
      "RequestsPerMinute c <
         next_count (call_time (fst (hd (take k cs)))) (store w) (''rate:'' @ ip)"
      by simp
    have bl: "butlast (take k cs) = take (k - 1) cs"
      using k(2) by (rule butlast_take)
    from IsAllowed_repeat_run [OF pos ne all succ over]
    show ?thesis
      by (simp only: last_take [OF k] bl)
  qed
  from IsAllowed_repeat_run [OF pos assms(2) assms(3) assms(4) assms(5)] each
  show ?thesis
    by (simp add: new_events_def)
qed

theorem block_rewrite_idempotent_witness:
  "IsAllowed_repeat scenario_config ''A''
     [(served (5 * Second), served (6 * Second)),
      (served (20 * Second), failed (21 * Second)),
      (served (70 * Second), served (71 * Second))] (counting 3 (30 * Second)) =
   ([(False, None), (False, Some (StoreError ''connection refused'')), (False, None)],
    \<lparr>store = [''rate:A'' \<mapsto> \<lparr>val = 6, expiry = Some (130 * Second)\<rparr>,
              ''blocked:A'' \<mapsto> \<lparr>val = 1, expiry = Some (671 * Second)\<rparr>],
     trace = [Submit [INCR ''rate:A'', EXPIRE ''rate:A'' Minute],
              Submit [SET ''blocked:A'' True (600 * Second)],
              Submit [INCR ''rate:A'', EXPIRE ''rate:A'' Minute],
              Submit [SET ''blocked:A'' True (600 * Second)],
              Submit [INCR ''rate:A'', EXPIRE ''rate:A'' Minute],
              Submit [SET ''blocked:A'' True (600 * Second)]]\<rparr>)"
proof -
  let ?cs = "[(served (5 * Second), served (6 * Second)),
      (served (20 * Second), failed (21 * Second)),
      (served (70 * Second), served (71 * Second))]"
  have 1: "validate '':8080'' ''http://localhost:3000'' scenario_config = None"
    by (simp add: validate_def scenario_config_def Second_def)
  have 2: "?cs \<noteq> []" by simp
  have 3: "\<forall>(ec, sc) \<in> set ?cs. call_err ec = None"
    by (simp add: served_def)
  have 4: "successively (\<lambda>a b. call_time (fst b) < call_time (fst a) + Minute) ?cs"
    by (simp add: served_def Second_def Minute_def)
  have 5: "RequestsPerMinute scenario_config <
      next_count (call_time (fst (hd ?cs))) (store (counting 3 (30 * Second))) (''rate:'' @ ''A'')"
    by (simp add: served_def counting_def scenario_config_def next_count_def live_def Second_def)
  from block_rewrite_idempotent [OF 1 2 3 4 5]
  show ?thesis
    by (simp add: IsAllowed_def BlockIP_def submit_def Val_def served_def failed_def counting_def
          scenario_config_def live_def Second_def Minute_def Let_def)
qed

text \<open>
  C8. The burst size has no effect: under two configurations that differ only in
  \<open>BurstSize\<close>, \<open>IsAllowed\<close>, \<open>IsBlocked\<close> and \<open>BlockIP\<close> are the same
  functions, and so are the handler and a whole run of requests: same results, same
  store afterwards, same submissions to the store in the same order.
\<close>

theorem BurstSize_unused:
  "IsAllowed (c\<lparr>BurstSize := b\<rparr>) = IsAllowed c \<and>
   IsBlocked (c\<lparr>BurstSize := b\<rparr>) = IsBlocked c \<and>
   BlockIP (c\<lparr>BurstSize := b\<rparr>) = BlockIP c \<and>
   handler (c\<lparr>BurstSize := b\<rparr>) = handler c \<and>
   serve (c\<lparr>BurstSize := b\<rparr>) = serve c"
proof -
  have blk: "BlockIP (c\<lparr>BurstSize := b\<rparr>) = BlockIP c"
    by (intro ext) (simp add: BlockIP_def)
  have alw: "IsAllowed (c\<lparr>BurstSize := b\<rparr>) = IsAllowed c"
    by (intro ext) (simp add: IsAllowed_def blk Let_def split: prod.splits sum.splits)
  have ibl: "IsBlocked (c\<lparr>BurstSize := b\<rparr>) = IsBlocked c"
    by (intro ext) (simp add: IsBlocked_def)
  have hdl: "handler (c\<lparr>BurstSize := b\<rparr>) = handler c"
    by (intro ext) (simp add: handler_def alw ibl Let_def split: prod.splits option.splits)
  have "serve (c\<lparr>BurstSize := b\<rparr>) rs w = serve c rs w" for rs w
    by (induction rs arbitrary: w) (auto simp: hdl split: prod.splits)
  then have "serve (c\<lparr>BurstSize := b\<rparr>) = serve c"
    by (intro ext)
  with blk alw ibl hdl show ?thesis by simp
qed

section \<open>The block check\<close>

text \<open>
  C5, as stated, does not hold on a check the store fails: the Block Record of \<open>A\<close>
  is in the store, with more than eight minutes to live, and \<open>IsBlocked\<close> returns
  \<open>false\<close> (with the error).
\<close>

theorem IsBlocked_store_failure:
  "live (70 * Second) (store blocked_world) ''blocked:A'' =
     Some \<lparr>val = 1, expiry = Some (600 * Second)\<rparr> \<and>
   fst (IsBlocked scenario_config (failed (70 * Second)) ''A'' blocked_world) =
     (False, Some (StoreError ''connection refused''))"
  by (simp add: IsBlocked_def submit_def failed_def blocked_world_def live_def Second_def Let_def)

text \<open>
  C5, amended. For every identity, \<open>IsBlocked\<close> returns \<open>true\<close> only if the
  identity's Block Record exists at the instant of the check; whenever the store serves
  the check it returns \<open>true\<close> exactly if the record exists then, and a check the
  store fails returns \<open>false\<close> with the error. None of this depends on the request
  counter of any identity; the check leaves the store as it was; and a record that is
  in the store is reported by every served check made before its time-to-live has
  elapsed.
\<close>

theorem IsBlocked_iff_record:
  "(fst (fst (IsBlocked c cl ip w)) \<longrightarrow>
      live (call_time cl) (store w) (''blocked:'' @ ip) \<noteq> None) \<and>
   (call_err cl = None \<longrightarrow>
      fst (IsBlocked c cl ip w) =
        (live (call_time cl) (store w) (''blocked:'' @ ip) \<noteq> None, None)) \<and>
   (\<forall>e. call_err cl = Some e \<longrightarrow> fst (IsBlocked c cl ip w) = (False, Some e)) \<and>
   fst (IsBlocked c cl ip (w\<lparr>store := (store w)(''rate:'' @ ip' := x)\<rparr>)) =
     fst (IsBlocked c cl ip w) \<and>
   store (snd (IsBlocked c cl ip w)) = store w \<and>
   (\<forall>e. store w (''blocked:'' @ ip) = Some e \<and> call_err cl = None \<and>
        (\<forall>t. expiry e = Some t \<longrightarrow> call_time cl < t) \<longrightarrow>
        fst (IsBlocked c cl ip w) = (True, None))"
  by (auto simp: IsBlocked_eq live_def split: option.splits)

theorem IsBlocked_iff_record_witness:
  "fst (IsBlocked scenario_config (served (70 * Second)) ''A'' blocked_world) = (True, None) \<and>
   fst (IsBlocked scenario_config (served (600 * Second)) ''A'' blocked_world) = (False, None) \<and>
   fst (IsBlocked scenario_config (failed (90 * Second)) ''A'' blocked_world) =
     (False, Some (StoreError ''connection refused'')) \<and>
   fst (IsBlocked scenario_config (served (70 * Second)) ''A''
          (blocked_world\<lparr>store := (store blocked_world)(''rate:A'' := None)\<rparr>)) = (True, None)"
  using IsBlocked_iff_record [where c = scenario_config and cl = "served (70 * Second)"
          and ip = "''A''" and w = blocked_world and ip' = "''A''" and x = None]
        IsBlocked_iff_record [where c = scenario_config and cl = "served (600 * Second)"
          and ip = "''A''" and w = blocked_world and ip' = "''A''" and x = None]
        IsBlocked_iff_record [where c = scenario_config and cl = "failed (90 * Second)"
          and ip = "''A''" and w = blocked_world and ip' = "''A''" and x = None]
  by (simp add: served_def failed_def blocked_world_def live_def Second_def)

text \<open>
  C9. Whenever \<open>IsBlocked\<close> or \<open>IsAllowed\<close> returns an error, the boolean it returns
  with it is \<open>false\<close>.
\<close>

theorem error_implies_false:
  "(snd (fst (IsBlocked c cl ip w)) \<noteq> None \<longrightarrow> \<not> fst (fst (IsBlocked c cl ip w))) \<and>
   (snd (fst (IsAllowed c ec sc ip w)) \<noteq> None \<longrightarrow> \<not> fst (fst (IsAllowed c ec sc ip w)))"
proof
  show "snd (fst (IsBlocked c cl ip w)) \<noteq> None \<longrightarrow> \<not> fst (fst (IsBlocked c cl ip w))"
    by (simp add: IsBlocked_eq split: option.splits)
next
  show "snd (fst (IsAllowed c ec sc ip w)) \<noteq> None \<longrightarrow> \<not> fst (fst (IsAllowed c ec sc ip w))"
  proof (cases "call_err ec")
    case None
    then show ?thesis
      by (cases "RequestsPerMinute c < next_count (call_time ec) (store w) (''rate:'' @ ip)")
         (simp_all add: IsAllowed_under IsAllowed_over)
  next
    case (Some e)
    then show ?thesis by (simp add: IsAllowed_fail)
  qed
qed

theorem error_implies_false_witness:
  "IsBlocked scenario_config (failed (70 * Second)) ''A'' blocked_world =
     ((False, Some (StoreError ''connection refused'')),
      blocked_world\<lparr>trace := [Submit [EXISTS ''blocked:A'']]\<rparr>) \<and>
   fst (IsAllowed scenario_config (failed (5 * Second)) (served (5 * Second)) ''A''
          (counting 2 (30 * Second))) = (False, Some (StoreError ''connection refused'')) \<and>
   fst (IsAllowed scenario_config (served (5 * Second)) (failed (5 * Second)) ''A''
          (counting 3 (30 * Second))) = (False, Some (StoreError ''connection refused''))"
  using error_implies_false [where c = scenario_config and cl = "failed (70 * Second)"
          and ip = "''A''" and w = blocked_world]
        error_implies_false [where c = scenario_config and ec = "failed (5 * Second)"
          and sc = "served (5 * Second)" and ip = "''A''" and w = "counting 2 (30 * Second)"]
        error_implies_false [where c = scenario_config and ec = "served (5 * Second)"
          and sc = "failed (5 * Second)" and ip = "''A''" and w = "counting 3 (30 * Second)"]
  by (simp add: IsBlocked_eq IsAllowed_fail IsAllowed_over failed_def served_def blocked_world_def
        counting_def scenario_config_def next_count_def live_def Second_def)

section \<open>The gateway handler\<close>








text \<open>
  C10, as stated, does not hold for a request whose forwarding is cut short. The
  request passes both checks, the proxy relays the origin's status line, copying the
  body fails and \<open>proxy.ServeHTTP\<close> panics; only the deferred duration is recorded
  after it, and no successful-request metric.
\<close>

theorem forwarding_abort_skips_success:
  "fst (IsBlocked scenario_config (blocked_call (env_aborting (5 * Second))) ''A''
          (counting 2 (30 * Second))) = (False, None) \<and>
   fst (IsAllowed scenario_config (exec_call (env_aborting (5 * Second)))
          (set_call (env_aborting (5 * Second))) ''A''
          (snd (IsBlocked scenario_config (blocked_call (env_aborting (5 * Second))) ''A''
                  (counting 2 (30 * Second))))) = (True, None) \<and>
   new_events (counting 2 (30 * Second))
      (snd (handler scenario_config (env_aborting (5 * Second)) request_A
              (counting 2 (30 * Second)))) =
     [Submit [EXISTS ''blocked:A''],
      Submit [INCR ''rate:A'', EXPIRE ''rate:A'' Minute],
      ServeHTTP 200,
      AbortHandler,
      ObserveRequestDuration ''/index'' 1000] \<and>
   count_list (new_events (counting 2 (30 * Second))
      (snd (handler scenario_config (env_aborting (5 * Second)) request_A
              (counting 2 (30 * Second))))) (IncSuccessfulRequests ''A'') = 0"
  by (simp add: handler_def IsBlocked_def IsAllowed_def submit_def Val_def emit_def
        http_error_def new_events_def env_aborting_def served_def request_A_def counting_def
        scenario_config_def live_def Second_def Let_def)

text \<open>
  C10, amended. For every request that passes both checks (the block check returns
  \<open>(false, nil)\<close>, the rate check \<open>(true, nil)\<close>) and whose forwarding returns, the
  handler records the successful-request metric for the identity once forwarding has
  returned, whatever status the origin answered with: exactly once among the effects of
  the request, right after the forwarding and before the deferred duration. When the
  forwarding aborts instead, the request records no successful-request metric: after
  the relayed status come the panic and the deferred duration only.
\<close>

theorem handler_forwarded:
  assumes "IsBlocked c (blocked_call ev) (RemoteAddr r) w = ((False, None), w1)"
      and "IsAllowed c (exec_call ev) (set_call ev) (RemoteAddr r) w1 = ((True, None), w2)"
  shows "(\<not> forward_aborts ev \<longrightarrow>
            handler c ev r w =
              (origin_status ev,
               w2\<lparr>trace := trace w2 @
                      [ServeHTTP (origin_status ev),
                       IncSuccessfulRequests (RemoteAddr r),
                       ObserveRequestDuration (Path r) (elapsed ev)]\<rparr>) \<and>
            new_events w (snd (handler c ev r w)) =
              [Submit [EXISTS (''blocked:'' @ RemoteAddr r)],
               Submit [INCR (''rate:'' @ RemoteAddr r), EXPIRE (''rate:'' @ RemoteAddr r) Minute],
               ServeHTTP (origin_status ev),
               IncSuccessfulRequests (RemoteAddr r),
               ObserveRequestDuration (Path r) (elapsed ev)] \<and>
            count_list (new_events w (snd (handler c ev r w)))
              (IncSuccessfulRequests (RemoteAddr r)) = 1) \<and>
         (forward_aborts ev \<longrightarrow>
            new_events w (snd (handler c ev r w)) =
              [Submit [EXISTS (''blocked:'' @ RemoteAddr r)],
               Submit [INCR (''rate:'' @ RemoteAddr r), EXPIRE (''rate:'' @ RemoteAddr r) Minute],
               ServeHTTP (origin_status ev),
               AbortHandler,
               ObserveRequestDuration (Path r) (elapsed ev)] \<and>
            count_list (new_events w (snd (handler c ev r w)))
              (IncSuccessfulRequests (RemoteAddr r)) = 0)"
proof -
  from assms(1) have ok: "call_err (blocked_call ev) = None"
    and free: "live (call_time (blocked_call ev)) (store w) (''blocked:'' @ RemoteAddr r) = None"
    and w1: "w1 = w\<lparr>trace := trace w @ [Submit [EXISTS (''blocked:'' @ RemoteAddr r)]]\<rparr>"
    by (auto simp: IsBlocked_eq split: option.splits)
  have h: "handler c ev r w =
           (if forward_aborts ev then
              (origin_status ev,
               w2\<lparr>trace := trace w2 @
                      [ServeHTTP (origin_status ev),
                       AbortHandler,
                       ObserveRequestDuration (Path r) (elapsed ev)]\<rparr>)
            else
              (origin_status ev,
               w2\<lparr>trace := trace w2 @
                      [ServeHTTP (origin_status ev),
                       IncSuccessfulRequests (RemoteAddr r),
                       ObserveRequestDuration (Path r) (elapsed ev)]\<rparr>))"
    using handler_IsAllowed [OF ok free assms(2) [unfolded w1]] by simp
  have under: "\<not> (call_err (exec_call ev) = None \<and>
       RequestsPerMinute c < next_count (call_time (exec_call ev)) (store w1) (''rate:'' @ RemoteAddr r))"
  proof
    assume "call_err (exec_call ev) = None \<and>
       RequestsPerMinute c < next_count (call_time (exec_call ev)) (store w1) (''rate:'' @ RemoteAddr r)"
    then have "fst (fst (IsAllowed c (exec_call ev) (set_call ev) (RemoteAddr r) w1)) = False"
      by (simp add: IsAllowed_over)
    with assms(2) show False by simp
  qed
  have tr: "trace w2 = trace w1 @ [Submit [INCR (''rate:'' @ RemoteAddr r), EXPIRE (''rate:'' @ RemoteAddr r) Minute]]"
    using IsAllowed_trace [of c "exec_call ev" "set_call ev" "RemoteAddr r" w1] under assms(2)
    by auto
  show ?thesis
    by (simp add: h tr w1 new_events_def)
qed

theorem handler_forwarded_witness:
  "handler scenario_config (env_at (5 * Second)) request_A (counting 2 (30 * Second)) =
     (200,
      \<lparr>store = [''rate:A'' \<mapsto> \<lparr>val = 3, expiry = Some (5 * Second + Minute)\<rparr>],
       trace = [Submit [EXISTS ''blocked:A''],
                Submit [INCR ''rate:A'', EXPIRE ''rate:A'' Minute],
                ServeHTTP 200,
                IncSuccessfulRequests ''A'',
                ObserveRequestDuration ''/index'' 1000]\<rparr>) \<and>
   new_events (counting 2 (30 * Second))
      (snd (handler scenario_config (env_aborting (5 * Second)) request_A
              (counting 2 (30 * Second)))) =
     [Submit [EXISTS ''blocked:A''],
      Submit [INCR ''rate:A'', EXPIRE ''rate:A'' Minute],
      ServeHTTP 200,
      AbortHandler,
      ObserveRequestDuration ''/index'' 1000]"
proof -
  let ?w = "counting 2 (30 * Second)"
  let ?w1 = "?w\<lparr>trace := [Submit [EXISTS ''blocked:A'']]\<rparr>"
  let ?w2 = "\<lparr>store = [''rate:A'' \<mapsto> \<lparr>val = 3, expiry = Some (5 * Second + Minute)\<rparr>],
             trace = [Submit [EXISTS ''blocked:A''],
                      Submit [INCR ''rate:A'', EXPIRE ''rate:A'' Minute]]\<rparr>"
  have 1: "IsBlocked scenario_config (blocked_call (env_at (5 * Second))) (RemoteAddr request_A) ?w =
           ((False, None), ?w1)"
    by (simp add: IsBlocked_eq env_at_def served_def request_A_def counting_def live_def)
  have 2: "IsAllowed scenario_config (exec_call (env_at (5 * Second)))
             (set_call (env_at (5 * Second))) (RemoteAddr request_A) ?w1 = ((True, None), ?w2)"
    by (simp add: IsAllowed_under env_at_def served_def request_A_def counting_def live_def
          next_count_def scenario_config_def Second_def)
  have 3: "IsBlocked scenario_config (blocked_call (env_aborting (5 * Second)))
             (RemoteAddr request_A) ?w = ((False, None), ?w1)"
    by (simp add: IsBlocked_eq env_aborting_def served_def request_A_def counting_def live_def)
  have 4: "IsAllowed scenario_config (exec_call (env_aborting (5 * Second)))
             (set_call (env_aborting (5 * Second))) (RemoteAddr request_A) ?w1 = ((True, None), ?w2)"
    by (simp add: IsAllowed_under env_aborting_def served_def request_A_def counting_def live_def
          next_count_def scenario_config_def Second_def)
  from handler_forwarded [OF 1 2] handler_forwarded [OF 3 4]
  show ?thesis
    by (simp add: env_at_def env_aborting_def request_A_def)
qed

end
